theory Spec2Isabelle
  imports Main "HOL-Library.Sublist" "HOL-Library.Multiset"
begin

section \<open>The usage counter \<open>musages.py\<close>\<close>

text \<open>
  The program walks the Python files below a directory, collects the names bound by
  \<open>from M import ...\<close> statements whose module starts with a given string, and
  counts the calls whose callee is one of these names.  Its three parts are the
  dataclass \<open>Import\<close>, the two \<open>ast.NodeVisitor\<close> subclasses and the driver
  \<open>get_calls\<close> / \<open>main\<close>.
\<close>

subsection \<open>Syntax trees\<close>

text \<open>
  \<open>ast.alias\<close>: one imported name with its optional \<open>as\<close> name.
\<close>

datatype ast_alias = Alias (alias_name: string) (alias_asname: "string option")

text \<open>
  The node classes of \<open>ast\<close> that the visitors tell apart, each with the fields the
  program reads, and one constructor for every other class.  Child nodes are kept in the
  order of the class's \<open>_fields\<close>, which is the order \<open>generic_visit\<close> walks them in:
  \<^item> \<open>ImportFrom module names level\<close>; \<open>module\<close> is \<open>None\<close> for \<open>from . import x\<close>;
  \<^item> \<open>Import_node names\<close> is \<open>ast.Import\<close>, the statement \<open>import x\<close>;
  \<^item> \<open>Call func args keywords\<close>;
  \<^item> \<open>Name id\<close> (its \<open>ctx\<close> child has no fields and no visitor method);
  \<^item> \<open>Attribute value attr\<close>, the expression \<open>value.attr\<close>;
  \<^item> \<open>Node children\<close> stands for a node of any other class (\<open>Module\<close>, \<open>Expr\<close>,
    \<open>FunctionDef\<close>, \<open>keyword\<close>, \<open>Constant\<close>, ...) with its child nodes.
\<close>

datatype node =
    ImportFrom "string option" "ast_alias list" nat
  | Import_node "ast_alias list"
  | Call node "node list" "node list"
  | Name string
  | Attribute node string
  | Node "node list"

subsection \<open>The dataclass \<open>Import\<close>\<close>

record Import =
  module :: string
  name :: string
  asname :: "string option"

text \<open>
  \<open>Import.id\<close> is \<open>self.asname or self.name\<close>: Python's \<open>or\<close> yields its left operand
  when that is truthy, and both \<open>None\<close> and the empty string are falsy.
\<close>

definition Import_id :: "Import \<Rightarrow> string" where
  "Import_id i = (case asname i of None \<Rightarrow> name i | Some a \<Rightarrow> if a = [] then name i else a)"

text \<open>\<open>Import.key\<close> is the f-string \<open>f"{self.module}.{self.name}"\<close>.\<close>

definition Import_key :: "Import \<Rightarrow> string" where
  "Import_key i = module i @ ''.'' @ name i"

subsection \<open>\<open>ImportCollector\<close>\<close>

text \<open>
  \<open>Import(node.module, alias.name, alias.asname)\<close>, the element of the generator
  expression in \<open>visit_ImportFrom\<close>.
\<close>

definition Import_of :: "string \<Rightarrow> ast_alias \<Rightarrow> Import" where
  "Import_of m a = \<lparr>module = m, name = alias_name a, asname = alias_asname a\<rparr>"

text \<open>
  \<open>ImportCollector(nm, acc).visit(node)\<close>, returning the list \<open>acc\<close> as the visit leaves
  it.  \<open>visit\<close> dispatches on the class of the node: \<open>visit_ImportFrom\<close> for an
  \<open>ImportFrom\<close>, \<open>generic_visit\<close> for every other class.  The test
  \<open>node.module and node.module.startswith(self.name)\<close> fails for \<open>None\<close> and for the
  empty string.  The \<open>generic_visit\<close> that ends \<open>visit_ImportFrom\<close> walks the
  \<open>alias\<close> children, for which nothing happens.
\<close>

fun ImportCollector_visit :: "string \<Rightarrow> node \<Rightarrow> Import list \<Rightarrow> Import list"
  and ImportCollector_visits :: "string \<Rightarrow> node list \<Rightarrow> Import list \<Rightarrow> Import list"
where
  "ImportCollector_visit nm (ImportFrom m ns lvl) acc =
     (case m of
        None \<Rightarrow> acc
      | Some s \<Rightarrow> if s \<noteq> [] \<and> prefix nm s then acc @ map (Import_of s) ns else acc)"
| "ImportCollector_visit nm (Import_node ns) acc = acc"
| "ImportCollector_visit nm (Call f as ks) acc =
     ImportCollector_visits nm ks
       (ImportCollector_visits nm as (ImportCollector_visit nm f acc))"
| "ImportCollector_visit nm (Name x) acc = acc"
| "ImportCollector_visit nm (Attribute v a) acc = ImportCollector_visit nm v acc"
| "ImportCollector_visit nm (Node cs) acc = ImportCollector_visits nm cs acc"
| "ImportCollector_visits nm [] acc = acc"
| "ImportCollector_visits nm (c # cs) acc =
     ImportCollector_visits nm cs (ImportCollector_visit nm c acc)"

subsection \<open>\<open>CallsCollector\<close>\<close>

text \<open>
  \<open>CallsCollector(ids, hits).visit(node)\<close>, returning the list \<open>hits\<close> as the visit
  leaves it.  \<open>visit_Call\<close> appends \<open>ids[node.func.id]\<close> when the callee is a \<open>Name\<close>
  whose \<open>id\<close> is a key of \<open>ids\<close>, then walks \<open>func\<close>, \<open>args\<close> and \<open>keywords\<close>.
\<close>

fun CallsCollector_visit :: "(string \<rightharpoonup> string) \<Rightarrow> node \<Rightarrow> string list \<Rightarrow> string list"
  and CallsCollector_visits :: "(string \<rightharpoonup> string) \<Rightarrow> node list \<Rightarrow> string list \<Rightarrow> string list"
where
  "CallsCollector_visit ids (Call f as ks) hits =
     (let hits1 = (case f of
                     Name x \<Rightarrow> (case ids x of Some k \<Rightarrow> hits @ [k] | None \<Rightarrow> hits)
                   | _ \<Rightarrow> hits)
      in CallsCollector_visits ids ks
           (CallsCollector_visits ids as (CallsCollector_visit ids f hits1)))"
| "CallsCollector_visit ids (ImportFrom m ns lvl) hits = hits"
| "CallsCollector_visit ids (Import_node ns) hits = hits"
| "CallsCollector_visit ids (Name x) hits = hits"
| "CallsCollector_visit ids (Attribute v a) hits = CallsCollector_visit ids v hits"
| "CallsCollector_visit ids (Node cs) hits = CallsCollector_visits ids cs hits"
| "CallsCollector_visits ids [] hits = hits"
| "CallsCollector_visits ids (c # cs) hits =
     CallsCollector_visits ids cs (CallsCollector_visit ids c hits)"

subsection \<open>\<open>get_calls\<close>\<close>

text \<open>
  What can end the run early: the \<open>SystemExit\<close> of \<open>main\<close>, and the exceptions of
  \<open>parse_file\<close> (\<open>open\<close>, \<open>read\<close> and \<open>ast.parse\<close>), none of which is caught anywhere.
\<close>

datatype error = SystemExit string | SyntaxError | UnicodeDecodeError | OSError

text \<open>
  The dict comprehension \<open>{i.id: i.key for i in imports}\<close>: the entries are stored in
  the order of the list, a later one replacing an earlier one with the same key.
\<close>

definition mapping_of :: "Import list \<Rightarrow> (string \<rightharpoonup> string)" where
  "mapping_of imports = foldl (\<lambda>m i. m(Import_id i \<mapsto> Import_key i)) Map.empty imports"

text \<open>
  The loop of \<open>get_calls\<close>.  \<open>parse_file\<close> reads a file and hands it to \<open>ast.parse\<close>;
  both belong to the Python library and the file system, so the function is a parameter
  that gives, for a path, the tree or the exception raised.  The paths are those
  \<open>root.glob("**/*.py")\<close> yields, in the order it yields them.  An exception leaves the
  loop at once and \<open>hits\<close> is lost with it.
\<close>

fun get_calls_loop ::
  "('p \<Rightarrow> error + node) \<Rightarrow> string \<Rightarrow> 'p list \<Rightarrow> string list \<Rightarrow> error + string list"
where
  "get_calls_loop parse_file m [] hits = Inr hits"
| "get_calls_loop parse_file m (path # paths) hits =
     (case parse_file path of
        Inl e \<Rightarrow> Inl e
      | Inr tree \<Rightarrow>
          (let imports = ImportCollector_visit m tree [];
               mapping = mapping_of imports
           in get_calls_loop parse_file m paths (CallsCollector_visit mapping tree hits)))"

definition get_calls :: "('p \<Rightarrow> error + node) \<Rightarrow> 'p list \<Rightarrow> string \<Rightarrow> error + string list" where
  "get_calls parse_file paths m = get_calls_loop parse_file m paths []"

subsection \<open>\<open>main\<close>\<close>

text \<open>
  \<open>collections.Counter\<close> is a dict, so it keeps its keys in the order of their first
  insertion; it is an association list with distinct keys here.  \<open>Counter(xs)\<close> runs
  \<open>self[elem] = self.get(elem, 0) + 1\<close> for every element in turn.
\<close>

fun count_elem :: "(string \<times> nat) list \<Rightarrow> string \<Rightarrow> (string \<times> nat) list" where
  "count_elem [] k = [(k, 1)]"
| "count_elem ((k', c) # rest) k =
     (if k' = k then (k', c + 1) # rest else (k', c) # count_elem rest k)"

definition Counter :: "string list \<Rightarrow> (string \<times> nat) list" where
  "Counter xs = foldl count_elem [] xs"

text \<open>
  \<open>Counter.most_common()\<close> is \<open>sorted(self.items(), key=itemgetter(1), reverse=True)\<close>:
  a stable sort, the larger count first, equal counts in the order of the dict.
\<close>

definition most_common :: "(string \<times> nat) list \<Rightarrow> (string \<times> nat) list" where
  "most_common c = sort_key (\<lambda>(k, n). - int n) c"

text \<open>
  What \<open>main\<close> hands over: the rows given to \<open>csv.writer(...).writerows\<close> for the file
  \<open>args.o\<close>, each of which the writer turns into one line of the file, or the counter
  given to \<open>pprint\<close>.
\<close>

datatype report = Csv string "(string \<times> nat) list" | Pprint "(string \<times> nat) list"

text \<open>
  \<open>main\<close> after \<open>parse_args\<close>: \<open>isdir\<close> is the answer of \<open>os.path.isdir(args.sources)\<close>,
  \<open>m\<close> is \<open>args.m\<close> and \<open>out\<close> is \<open>args.o\<close>, which is \<open>None\<close> without \<open>-o\<close>.  The test
  \<open>if args.o\<close> fails for \<open>None\<close> and for the empty string.

  The block \<open>with open(args.o, "w", encoding="utf-8") as csvfile\<close> belongs to the file
  system, so its outcome is a parameter: \<open>open_write f rows\<close> is \<open>None\<close> when the file
  \<open>f\<close> was opened and the rows were written, and the exception otherwise (an \<open>OSError\<close>
  for a missing directory, a directory in place of the file, a lack of permission).  The
  exception is not caught: it ends the run, and the rows are not written.
\<close>

definition main ::
  "bool \<Rightarrow> ('p \<Rightarrow> error + node) \<Rightarrow> (string \<Rightarrow> (string \<times> nat) list \<Rightarrow> error option) \<Rightarrow>
   'p list \<Rightarrow> string \<Rightarrow> string option \<Rightarrow> error + report"
where
  "main isdir parse_file open_write paths m out =
     (if \<not> isdir then Inl (SystemExit ''given path is not a directory'')
      else case get_calls parse_file paths m of
             Inl e \<Rightarrow> Inl e
           | Inr hs \<Rightarrow>
               (let hits = Counter hs
                in case out of
                     None \<Rightarrow> Inr (Pprint hits)
                   | Some f \<Rightarrow>
                       if f \<noteq> [] then
                         (case open_write f (most_common hits) of
                            Some e \<Rightarrow> Inl e
                          | None \<Rightarrow> Inr (Csv f (most_common hits)))
                       else Inr (Pprint hits)))"

text \<open>Two file systems: one in which every output file can be written, one in which none can.\<close>

definition open_ok :: "string \<Rightarrow> (string \<times> nat) list \<Rightarrow> error option" where
  "open_ok f rows = None"

definition open_fails :: "string \<Rightarrow> (string \<times> nat) list \<Rightarrow> error option" where
  "open_fails f rows = Some OSError"

text \<open>A directory in which every path parses to the given tree.\<close>

definition parse_as :: "node \<Rightarrow> nat \<Rightarrow> error + node" where
  "parse_as tree p = Inr tree"

subsection \<open>Reading a tree without the visitors\<close>

text \<open>
  The \<open>from\<close>-import statements of a tree, each with its module and its names, in the
  order a depth-first walk from left to right meets them.
\<close>

fun from_imports :: "node \<Rightarrow> (string option \<times> ast_alias list) list"
  and from_imports_list :: "node list \<Rightarrow> (string option \<times> ast_alias list) list"
where
  "from_imports (ImportFrom m ns lvl) = [(m, ns)]"
| "from_imports (Import_node ns) = []"
| "from_imports (Call f as ks) = from_imports f @ from_imports_list as @ from_imports_list ks"
| "from_imports (Name x) = []"
| "from_imports (Attribute v a) = from_imports v"
| "from_imports (Node cs) = from_imports_list cs"
| "from_imports_list [] = []"
| "from_imports_list (c # cs) = from_imports c @ from_imports_list cs"

text \<open>
  The specification's Import Resolver: a statement counts when its module name is
  non-empty and starts with the target prefix, that is, when its first characters are the
  prefix; a statement that counts gives one binding per imported name, with the
  statement's module, the name and the alias.
\<close>

definition module_matches :: "string \<Rightarrow> string option \<Rightarrow> bool" where
  "module_matches p m = (case m of None \<Rightarrow> False | Some s \<Rightarrow> s \<noteq> [] \<and> take (length p) s = p)"

definition statement_bindings :: "string option \<times> ast_alias list \<Rightarrow> Import list" where
  "statement_bindings st =
     (case fst st of
        None \<Rightarrow> []
      | Some s \<Rightarrow> map (\<lambda>a. \<lparr>module = s, name = alias_name a, asname = alias_asname a\<rparr>) (snd st))"

definition import_bindings :: "string \<Rightarrow> node \<Rightarrow> Import list" where
  "import_bindings p tree =
     concat (map statement_bindings (filter (\<lambda>st. module_matches p (fst st)) (from_imports tree)))"

text \<open>
  The bindings of every \<open>from\<close>-import statement that names a module, whatever the
  module is.
\<close>

definition all_bindings :: "node \<Rightarrow> Import list" where
  "all_bindings tree =
     concat (map statement_bindings
       (filter (\<lambda>st. fst st \<noteq> None \<and> fst st \<noteq> Some []) (from_imports tree)))"

text \<open>
  The identifier an imported name is known by in the importing file: the alias if the
  statement gives one, else the name itself (an empty alias counts as none).  Then the
  identifiers bound by the \<open>from\<close>-import statements of a tree that name a module.
\<close>

definition local_identifier :: "ast_alias \<Rightarrow> string" where
  "local_identifier a =
     (case alias_asname a of
        None \<Rightarrow> alias_name a
      | Some y \<Rightarrow> if y = [] then alias_name a else y)"

definition bound_identifiers :: "node \<Rightarrow> string list" where
  "bound_identifiers tree =
     concat (map (\<lambda>st. map local_identifier (snd st))
       (filter (\<lambda>st. fst st \<noteq> None \<and> fst st \<noteq> Some []) (from_imports tree)))"

text \<open>
  The callees of the calls of a tree that are bare identifiers, in the order a
  depth-first walk from left to right meets the calls.
\<close>

fun bare_calls :: "node \<Rightarrow> string list"
  and bare_calls_list :: "node list \<Rightarrow> string list"
where
  "bare_calls (Call f as ks) =
     (case f of Name x \<Rightarrow> [x] | _ \<Rightarrow> []) @ bare_calls f @ bare_calls_list as @ bare_calls_list ks"
| "bare_calls (ImportFrom m ns lvl) = []"
| "bare_calls (Import_node ns) = []"
| "bare_calls (Name x) = []"
| "bare_calls (Attribute v a) = bare_calls v"
| "bare_calls (Node cs) = bare_calls_list cs"
| "bare_calls_list [] = []"
| "bare_calls_list (c # cs) = bare_calls c @ bare_calls_list cs"

subsection \<open>Example files\<close>

text \<open>
  \<open>from acme.mod import foo as f\<close>, then \<open>f(); f()\<close>: a \<open>Module\<close> whose body is the
  import and two \<open>Expr\<close> statements.
\<close>

definition file_A :: node where
  "file_A = Node [ImportFrom (Some ''acme.mod'') [Alias ''foo'' (Some ''f'')] 0,
                  Node [Call (Name ''f'') [] []],
                  Node [Call (Name ''f'') [] []]]"

text \<open>\<open>from acme.mod import foo\<close>, then \<open>foo()\<close>.\<close>

definition file_B :: node where
  "file_B = Node [ImportFrom (Some ''acme.mod'') [Alias ''foo'' None] 0,
                  Node [Call (Name ''foo'') [] []]]"

text \<open>
  \<open>from foo import a\<close>, \<open>from foo.bar import b as c\<close>, \<open>from foobar import d\<close>,
  \<open>from fo import e\<close>, \<open>from xfoo import g\<close> and \<open>from . import h\<close>.
\<close>

definition file_prefixes :: node where
  "file_prefixes = Node [ImportFrom (Some ''foo'') [Alias ''a'' None] 0,
                         ImportFrom (Some ''foo.bar'') [Alias ''b'' (Some ''c'')] 0,
                         ImportFrom (Some ''foobar'') [Alias ''d'' None] 0,
                         ImportFrom (Some ''fo'') [Alias ''e'' None] 0,
                         ImportFrom (Some ''xfoo'') [Alias ''g'' None] 0,
                         ImportFrom None [Alias ''h'' None] 1]"

text \<open>
  \<open>from target.sub import thing as t\<close>, then \<open>t(1)\<close> and \<open>thing(2)\<close>; the constants are
  nodes without children.
\<close>

definition file_aliased :: node where
  "file_aliased = Node [ImportFrom (Some ''target.sub'') [Alias ''thing'' (Some ''t'')] 0,
                        Node [Call (Name ''t'') [Node []] []],
                        Node [Call (Name ''thing'') [Node []] []]]"

text \<open>The same import followed by \<open>t(1)\<close> alone, and by \<open>thing(2)\<close> alone.\<close>

definition file_alias_call :: node where
  "file_alias_call = Node [ImportFrom (Some ''target.sub'') [Alias ''thing'' (Some ''t'')] 0,
                           Node [Call (Name ''t'') [Node []] []]]"

definition file_original_call :: node where
  "file_original_call = Node [ImportFrom (Some ''target.sub'') [Alias ''thing'' (Some ''t'')] 0,
                              Node [Call (Name ''thing'') [Node []] []]]"

text \<open>
  \<open>from m import f as a\<close>, \<open>a()\<close>, \<open>from m import g as a\<close>, \<open>a()\<close>.
\<close>

definition file_reimport :: node where
  "file_reimport = Node [ImportFrom (Some ''m'') [Alias ''f'' (Some ''a'')] 0,
                         Node [Call (Name ''a'') [] []],
                         ImportFrom (Some ''m'') [Alias ''g'' (Some ''a'')] 0,
                         Node [Call (Name ''a'') [] []]]"

text \<open>\<open>import target\<close>, then \<open>target.thing()\<close>.\<close>

definition file_attribute :: node where
  "file_attribute = Node [Import_node [Alias ''target'' None],
                          Node [Call (Attribute (Name ''target'') ''thing'') [] []]]"

text \<open>\<open>f()\<close>, then \<open>from m import f\<close>.\<close>

definition file_call_first :: node where
  "file_call_first = Node [Node [Call (Name ''f'') [] []],
                           ImportFrom (Some ''m'') [Alias ''f'' None] 0]"

text \<open>
  \<open>from . import h\<close>, \<open>from pkg import x as y\<close>, \<open>from lib import z\<close>, then \<open>h()\<close>,
  \<open>y()\<close>, \<open>y()\<close>, \<open>x()\<close>, \<open>z()\<close>.
\<close>

definition file_any_module :: node where
  "file_any_module = Node [ImportFrom None [Alias ''h'' None] 1,
                           ImportFrom (Some ''pkg'') [Alias ''x'' (Some ''y'')] 0,
                           ImportFrom (Some ''lib'') [Alias ''z'' None] 0,
                           Node [Call (Name ''h'') [] []],
                           Node [Call (Name ''y'') [] []],
                           Node [Call (Name ''y'') [] []],
                           Node [Call (Name ''x'') [] []],
                           Node [Call (Name ''z'') [] []]]"

text \<open>\<open>from . import h\<close>, then \<open>h()\<close>.\<close>

definition file_relative :: node where
  "file_relative = Node [ImportFrom None [Alias ''h'' None] 1,
                         Node [Call (Name ''h'') [] []]]"

section \<open>Properties\<close>

subsection \<open>The visitors as list functions\<close>

lemma map_filter_append:
  "List.map_filter f (xs @ ys) = List.map_filter f xs @ List.map_filter f ys"
  by (simp add: List.map_filter_def)

lemma prefix_take_eq: "prefix p s \<longleftrightarrow> take (length p) s = p"
  by (metis append_eq_conv_conj prefix_def append_take_drop_id)

text \<open>
  The collector adds to its list the bindings of the statements that match, and nothing
  else; the list it was given stays in front.
\<close>

lemma ImportCollector_from_imports:
  "ImportCollector_visit nm n acc =
     acc @ concat (map statement_bindings
                    (filter (\<lambda>st. module_matches nm (fst st)) (from_imports n)))"
  "ImportCollector_visits nm cs acc =
     acc @ concat (map statement_bindings
                    (filter (\<lambda>st. module_matches nm (fst st)) (from_imports_list cs)))"
  by (induction nm n acc and nm cs acc rule: ImportCollector_visit_ImportCollector_visits.induct)
     (simp_all add: module_matches_def statement_bindings_def prefix_take_eq Import_of_def
        split: option.splits)

lemma ImportCollector_visit_eq:
  "ImportCollector_visit nm n acc = acc @ import_bindings nm n"
  by (simp add: import_bindings_def ImportCollector_from_imports(1))

text \<open>
  The call scanner adds one hit for every call whose callee is a bare identifier and a
  key of \<open>ids\<close>, in the order of the walk.
\<close>

lemma CallsCollector_bare_calls:
  "CallsCollector_visit ids n hits = hits @ List.map_filter ids (bare_calls n)"
  "CallsCollector_visits ids cs hits = hits @ List.map_filter ids (bare_calls_list cs)"
  by (induction ids n hits and ids cs hits rule: CallsCollector_visit_CallsCollector_visits.induct)
     (simp_all add: map_filter_append split: node.splits option.splits)

lemma bare_calls_list_append:
  "bare_calls_list (xs @ ys) = bare_calls_list xs @ bare_calls_list ys"
  by (induction xs) simp_all

lemma map_filter_const:
  "\<forall>x\<in>set xs. x \<noteq> a \<longrightarrow> f x = None \<Longrightarrow> f a = Some k \<Longrightarrow>
   List.map_filter f xs = replicate (count_list xs a) k"
  by (induction xs) (auto simp: List.map_filter_simps)

subsection \<open>The alias map\<close>

lemma mapping_of_snoc:
  "mapping_of (bs @ [b]) = (mapping_of bs)(Import_id b \<mapsto> Import_key b)"
  by (simp add: mapping_of_def)

lemma dom_mapping_of: "dom (mapping_of bs) = Import_id ` set bs"
proof (induction bs rule: rev_induct)
  case Nil
  show ?case by (simp add: mapping_of_def)
next
  case (snoc b bs)
  have "dom (mapping_of (bs @ [b])) = insert (Import_id b) (dom (mapping_of bs))"
    by (simp add: mapping_of_snoc)
  with snoc show ?case by simp
qed

lemma mapping_of_last:
  "\<forall>z\<in>set zs. Import_id z \<noteq> Import_id b \<Longrightarrow>
   mapping_of (xs @ b # zs) (Import_id b) = Some (Import_key b)"
proof (induction zs rule: rev_induct)
  case Nil
  show ?case using mapping_of_snoc [of xs b] by simp
next
  case (snoc z zs)
  have "mapping_of (xs @ b # zs @ [z]) = (mapping_of (xs @ b # zs))(Import_id z \<mapsto> Import_key z)"
    using mapping_of_snoc [of "xs @ b # zs" z] by simp
  with snoc.IH snoc.prems show ?case by auto
qed

subsection \<open>One file, and a file that fails\<close>

lemma get_calls_single:
  "parse_file p = Inr tree \<Longrightarrow>
   get_calls parse_file [p] m =
     Inr (List.map_filter (mapping_of (ImportCollector_visit m tree [])) (bare_calls tree))"
  by (simp add: get_calls_def CallsCollector_bare_calls)

lemma get_calls_loop_fail:
  "\<forall>q\<in>set ok. \<exists>t. parse_file q = Inr t \<Longrightarrow> parse_file p = Inl e \<Longrightarrow>
   get_calls_loop parse_file m (ok @ p # rest) hits = Inl e"
  by (induction ok arbitrary: hits) auto

subsection \<open>The counter\<close>

lemma map_of_count_elem:
  "map_of (count_elem c k) =
     (map_of c)(k \<mapsto> (case map_of c k of None \<Rightarrow> 1 | Some n \<Rightarrow> n + 1))"
  by (induction c k rule: count_elem.induct) (auto simp: fun_eq_iff)

lemma keys_count_elem:
  "map fst (count_elem c k) = (if k \<in> set (map fst c) then map fst c else map fst c @ [k])"
  by (induction c k rule: count_elem.induct) auto

lemma distinct_foldl_count_elem:
  "distinct (map fst c) \<Longrightarrow> distinct (map fst (foldl count_elem c xs))"
  by (induction xs arbitrary: c) (simp_all add: keys_count_elem)

lemma map_of_foldl_count_elem:
  "map_of (foldl count_elem c xs) k =
     (case map_of c k of
        None \<Rightarrow> if k \<in> set xs then Some (count_list xs k) else None
      | Some n \<Rightarrow> Some (n + count_list xs k))"
  by (induction xs arbitrary: c) (auto simp: map_of_count_elem split: option.splits)

lemma map_of_Counter:
  "map_of (Counter xs) k = (if k \<in> set xs then Some (count_list xs k) else None)"
  by (simp add: Counter_def map_of_foldl_count_elem)

lemma distinct_Counter: "distinct (map fst (Counter xs))"
  by (simp add: Counter_def distinct_foldl_count_elem)

lemma keys_Counter: "fst ` set (Counter xs) = set xs"
proof -
  have "dom (map_of (Counter xs)) = set xs"
    by (auto simp: dom_def map_of_Counter)
  then show ?thesis by (simp add: dom_map_of_conv_image_fst)
qed

lemma most_common_sorted: "sorted_wrt (\<lambda>a b. snd a \<ge> snd b) (most_common c)"
proof -
  have "sorted (map (\<lambda>(k, n). - int n) (most_common c))"
    unfolding most_common_def by (rule sorted_sort_key)
  then show ?thesis
    by (simp add: sorted_map sorted_wrt_iff_nth_less case_prod_beta)
qed

subsection \<open>The hits of a run are those of its files, one file after the other\<close>

lemma get_calls_loop_ok:
  "get_calls_loop parse_file m paths hits = Inr hs \<Longrightarrow>
   hs = hits @ concat (map (\<lambda>p. case parse_file p of
                               Inl e \<Rightarrow> []
                             | Inr tree \<Rightarrow> CallsCollector_visit
                                 (mapping_of (ImportCollector_visit m tree [])) tree []) paths)"
proof (induction paths arbitrary: hits)
  case Nil
  then show ?case by simp
next
  case (Cons p paths)
  show ?case
  proof (cases "parse_file p")
    case (Inl e)
    with Cons.prems show ?thesis by simp
  next
    case (Inr tree)
    let ?h = "CallsCollector_visit (mapping_of (ImportCollector_visit m tree [])) tree"
    from Cons.prems Inr have "get_calls_loop parse_file m paths (?h hits) = Inr hs"
      by simp
    from Cons.IH [OF this] have "hs = ?h hits @ concat (map (\<lambda>p. case parse_file p of
                               Inl e \<Rightarrow> []
                             | Inr tree \<Rightarrow> CallsCollector_visit
                                 (mapping_of (ImportCollector_visit m tree [])) tree []) paths)" .
    moreover have "?h hits = hits @ ?h []"
      by (simp add: CallsCollector_bare_calls)
    ultimately show ?thesis using Inr by simp
  qed
qed

lemma mset_concat_map_perm:
  "mset xs = mset ys \<Longrightarrow> mset (concat (map f xs)) = mset (concat (map f ys))"
proof -
  assume a: "mset xs = mset ys"
  have "mset (concat (map f xs)) = (\<Sum>x\<in>#mset xs. mset (f x))"
    by (induction xs) simp_all
  moreover have "mset (concat (map f ys)) = (\<Sum>x\<in>#mset ys. mset (f x))"
    by (induction ys) simp_all
  ultimately show ?thesis using a by simp
qed

lemma get_calls_perm:
  assumes "mset paths = mset paths'"
    and "get_calls parse_file paths m = Inr hs" and "get_calls parse_file paths' m = Inr hs'"
  shows "mset hs = mset hs'"
  using get_calls_loop_ok [of parse_file m paths "[]" hs]
    get_calls_loop_ok [of parse_file m paths' "[]" hs'] assms(2,3)
    mset_concat_map_perm [OF assms(1)]
  by (simp add: get_calls_def)

lemma Counter_perm:
  assumes "mset hs = mset hs'"
  shows "map_of (Counter hs) = map_of (Counter hs')"
proof
  fix k
  from assms have "count_list hs k = count_list hs' k"
    by (metis count_mset)
  moreover from assms have "set hs = set hs'"
    by (metis set_mset_mset)
  ultimately show "map_of (Counter hs) k = map_of (Counter hs') k"
    by (simp add: map_of_Counter)
qed

subsection \<open>The empty prefix\<close>

lemma from_imports_list_append:
  "from_imports_list (xs @ ys) = from_imports_list xs @ from_imports_list ys"
  by (induction xs) simp_all

lemma import_bindings_empty: "import_bindings [] tree = all_bindings tree"
proof -
  have "(\<lambda>st. module_matches [] (fst st)) = (\<lambda>st::string option \<times> ast_alias list. fst st \<noteq> None \<and> fst st \<noteq> Some [])"
    by (auto simp: fun_eq_iff module_matches_def split: option.splits)
  then show ?thesis by (simp add: import_bindings_def all_bindings_def)
qed

lemma Import_id_statement_bindings:
  "map Import_id (statement_bindings st) =
     (case fst st of None \<Rightarrow> [] | Some s \<Rightarrow> map local_identifier (snd st))"
  by (simp add: statement_bindings_def Import_id_def local_identifier_def split: option.splits)

lemma Import_id_all_bindings:
  "map Import_id (all_bindings tree) = bound_identifiers tree"
proof -
  have "map Import_id (concat (map statement_bindings sts)) =
        concat (map (\<lambda>st. map local_identifier (snd st)) sts)"
    if "\<forall>st\<in>set sts. fst st \<noteq> None" for sts :: "(string option \<times> ast_alias list) list"
    using that by (induction sts) (auto simp: Import_id_statement_bindings)
  then show ?thesis
    by (simp add: all_bindings_def bound_identifiers_def)
qed

lemma length_map_filter:
  "length (List.map_filter f xs) = length (filter (\<lambda>x. x \<in> dom f) xs)"
  by (simp add: List.map_filter_def dom_def)

section \<open>The claims\<close>

text \<open>
  C1.  The directory holds two files, \<open>file_A\<close> (\<open>from acme.mod import foo as f\<close>, then
  \<open>f(); f()\<close>) and \<open>file_B\<close> (\<open>from acme.mod import foo\<close>, then \<open>foo()\<close>).  Run with the
  module \<open>acme.mod\<close>, the program counts \<open>acme.mod.foo\<close> three times and nothing else,
  in whichever order the two files come.
\<close>

theorem end_to_end_scenario:
  assumes "parse_file a = Inr file_A" and "parse_file b = Inr file_B"
  shows "main True parse_file open_write [a, b] ''acme.mod'' None = Inr (Pprint [(''acme.mod.foo'', 3)])
       \<and> main True parse_file open_write [b, a] ''acme.mod'' None = Inr (Pprint [(''acme.mod.foo'', 3)])"
  using assms
  by (simp add: main_def get_calls_def file_A_def file_B_def mapping_of_def Import_of_def
       Import_id_def Import_key_def Counter_def)

theorem end_to_end_scenario_witness:
  "main True (\<lambda>p::nat. if p = 0 then Inr file_A else Inr file_B) open_ok [0, 1] ''acme.mod'' None
     = Inr (Pprint [(''acme.mod.foo'', 3)])"
  using end_to_end_scenario [of "\<lambda>p::nat. if p = 0 then Inr file_A else Inr file_B" 0 1 open_ok]
  by simp

text \<open>
  C2.  For every tree and every prefix, the import collector returns the bindings of the
  specification's resolver: one binding, with the module, the name and the alias, for
  every name of exactly the \<open>from\<close>-import statements whose module is non-empty and
  begins with the prefix.  The prefix \<open>foo\<close> matches the modules \<open>foo\<close>, \<open>foo.bar\<close> and
  \<open>foobar\<close>; in \<open>file_prefixes\<close> these three statements give the bindings and the
  statements from \<open>fo\<close>, \<open>xfoo\<close> and \<open>.\<close> give none.
\<close>

theorem import_resolver_prefix_match:
  "ImportCollector_visit p tree [] = import_bindings p tree
   \<and> module_matches ''foo'' (Some ''foo'')
   \<and> module_matches ''foo'' (Some ''foo.bar'')
   \<and> module_matches ''foo'' (Some ''foobar'')
   \<and> ImportCollector_visit ''foo'' file_prefixes [] =
       [\<lparr>module = ''foo'', name = ''a'', asname = None\<rparr>,
        \<lparr>module = ''foo.bar'', name = ''b'', asname = Some ''c''\<rparr>,
        \<lparr>module = ''foobar'', name = ''d'', asname = None\<rparr>]"
  by (simp add: ImportCollector_visit_eq [of p tree "[]"] module_matches_def file_prefixes_def
       Import_of_def)

text \<open>
  C3.  A file whose only \<open>from\<close>-import statement is \<open>from target.sub import thing as t\<close>,
  anywhere in it, scanned for a target that \<open>target.sub\<close> starts with: the alias map has
  the one key \<open>t\<close>, bound to \<open>target.sub.thing\<close>, and the scan gives one hit
  \<open>target.sub.thing\<close> for each call \<open>t(...)\<close> and no other hit.  So one call of \<open>t\<close>
  gives exactly one hit, and a call \<open>thing(...)\<close> gives none.
\<close>

theorem aliased_import_tracks_alias_only:
  assumes "parse_file p = Inr tree"
    and "from_imports tree = [(Some ''target.sub'', [Alias ''thing'' (Some ''t'')])]"
    and "prefix m ''target.sub''"
  shows "dom (mapping_of (ImportCollector_visit m tree [])) = {''t''}
       \<and> mapping_of (ImportCollector_visit m tree []) ''t'' = Some ''target.sub.thing''
       \<and> get_calls parse_file [p] m =
           Inr (replicate (count_list (bare_calls tree) ''t'') ''target.sub.thing'')"
proof -
  let ?ids = "mapping_of (ImportCollector_visit m tree [])"
  have "module_matches m (Some ''target.sub'')"
    using assms(3) by (simp add: module_matches_def prefix_take_eq)
  then have "ImportCollector_visit m tree [] =
      [\<lparr>module = ''target.sub'', name = ''thing'', asname = Some ''t''\<rparr>]"
    by (simp add: ImportCollector_from_imports(1) assms(2) statement_bindings_def)
  then have ids: "?ids = [''t'' \<mapsto> ''target.sub.thing'']"
    by (simp add: mapping_of_def Import_id_def Import_key_def)
  have "List.map_filter ?ids (bare_calls tree) =
          replicate (count_list (bare_calls tree) ''t'') ''target.sub.thing''"
    by (rule map_filter_const) (simp_all add: ids)
  with get_calls_single [of parse_file p tree m] assms(1) ids show ?thesis by simp
qed

theorem aliased_import_tracks_alias_only_witness:
  "get_calls (parse_as file_alias_call) [0] ''target'' = Inr [''target.sub.thing'']
   \<and> get_calls (parse_as file_original_call) [0] ''target'' = Inr []
   \<and> get_calls (parse_as file_aliased) [0] ''target'' = Inr [''target.sub.thing'']"
  using aliased_import_tracks_alias_only [of "parse_as file_alias_call" 0 file_alias_call "''target''"]
    aliased_import_tracks_alias_only [of "parse_as file_original_call" 0 file_original_call "''target''"]
    aliased_import_tracks_alias_only [of "parse_as file_aliased" 0 file_aliased "''target''"]
  by (simp add: parse_as_def file_alias_call_def file_original_call_def file_aliased_def)

text \<open>
  C4.  When two bindings of a file have the same local identifier \<open>a\<close> and no later
  binding has it, the alias map binds \<open>a\<close> to the key of the later of the two.  Building
  the map cannot fail, and the hits of the file are read from this map.  When the two
  are the only bindings of the file, as for \<open>from m import f as a\<close> followed by
  \<open>from m import g as a\<close>, every hit of the file is the later key, one for each call of
  \<open>a\<close>.
\<close>

theorem last_binding_wins:
  assumes "parse_file p = Inr tree"
    and "ImportCollector_visit m tree [] = xs @ b1 # ys @ b2 # zs"
    and "Import_id b1 = a" and "Import_id b2 = a"
    and "\<forall>z\<in>set zs. Import_id z \<noteq> a"
  shows "mapping_of (ImportCollector_visit m tree []) a = Some (Import_key b2)
       \<and> get_calls parse_file [p] m =
           Inr (List.map_filter (mapping_of (xs @ b1 # ys @ b2 # zs)) (bare_calls tree))
       \<and> (xs = [] \<and> ys = [] \<and> zs = [] \<longrightarrow>
            get_calls parse_file [p] m =
              Inr (replicate (count_list (bare_calls tree) a) (Import_key b2)))"
proof -
  let ?bs = "xs @ b1 # ys @ b2 # zs"
  have "mapping_of ((xs @ b1 # ys) @ b2 # zs) (Import_id b2) = Some (Import_key b2)"
    by (rule mapping_of_last) (simp add: assms(4,5))
  then have last: "mapping_of ?bs a = Some (Import_key b2)"
    by (simp add: assms(4))
  have hits: "get_calls parse_file [p] m = Inr (List.map_filter (mapping_of ?bs) (bare_calls tree))"
    using get_calls_single [of parse_file p tree m] assms(1) by (simp add: assms(2))
  have "List.map_filter (mapping_of ?bs) (bare_calls tree) =
          replicate (count_list (bare_calls tree) a) (Import_key b2)"
    if "xs = []" "ys = []" "zs = []"
  proof (rule map_filter_const)
    have "dom (mapping_of ?bs) = {a}"
      by (simp add: dom_mapping_of that assms(3,4))
    then show "\<forall>x\<in>set (bare_calls tree). x \<noteq> a \<longrightarrow> mapping_of ?bs x = None"
      by blast
    show "mapping_of ?bs a = Some (Import_key b2)" by (rule last)
  qed
  with last hits show ?thesis by (simp add: assms(2))
qed

theorem last_binding_wins_witness:
  "mapping_of (ImportCollector_visit ''m'' file_reimport []) ''a'' = Some ''m.g''
   \<and> get_calls (\<lambda>p::nat. Inr file_reimport) [0] ''m'' = Inr [''m.g'', ''m.g'']"
  using last_binding_wins [of "\<lambda>p::nat. Inr file_reimport" 0 file_reimport "''m''" "[]"
      "\<lparr>module = ''m'', name = ''f'', asname = Some ''a''\<rparr>" "[]"
      "\<lparr>module = ''m'', name = ''g'', asname = Some ''a''\<rparr>" "[]" "''a''"]
  by (simp add: file_reimport_def Import_of_def Import_id_def Import_key_def)

text \<open>
  C5.  A call whose callee is not a \<open>Name\<close> adds no hit of its own: visiting it is
  visiting its callee, arguments and keywords.  An \<open>import\<close> statement gives no binding.
  The file \<open>import target\<close>, \<open>target.thing()\<close> gives no hit for any target module.
\<close>

theorem non_name_callee_never_counted:
  "((\<forall>x. f \<noteq> Name x) \<longrightarrow>
      CallsCollector_visit ids (Call f as ks) hits = CallsCollector_visits ids (f # as @ ks) hits)
   \<and> ImportCollector_visit m (Import_node ns) acc = acc
   \<and> (parse_file p = Inr file_attribute \<longrightarrow> get_calls parse_file [p] m = Inr [])"
proof -
  have "CallsCollector_visit ids (Call f as ks) hits = CallsCollector_visits ids (f # as @ ks) hits"
    if "\<forall>x. f \<noteq> Name x"
    using that
    by (cases f) (simp_all add: CallsCollector_bare_calls bare_calls_list_append map_filter_append)
  moreover have "get_calls parse_file [p] m = Inr []" if "parse_file p = Inr file_attribute"
    using that by (simp add: get_calls_def file_attribute_def)
  ultimately show ?thesis by simp
qed

theorem non_name_callee_never_counted_witness:
  "CallsCollector_visit [''target'' \<mapsto> ''target.target'', ''thing'' \<mapsto> ''target.thing'']
      (Call (Attribute (Name ''target'') ''thing'') [] []) [] = []
   \<and> get_calls (\<lambda>p::nat. Inr file_attribute) [0] ''target'' = Inr []"
  using non_name_callee_never_counted [of "Attribute (Name ''target'') ''thing''"
      "[''target'' \<mapsto> ''target.target'', ''thing'' \<mapsto> ''target.thing'']" "[]" "[]" "[]"
      "''target''" "[]" "[]" "\<lambda>p::nat. Inr file_attribute" 0]
  by simp

text \<open>
  C6.  If some file of the tree fails to parse, the run ends with the exception of the
  first such file: \<open>get_calls\<close> returns no hits, although every file before it was
  parsed and scanned, and \<open>main\<close> reports nothing.
\<close>

theorem parse_error_aborts_run:
  assumes "p \<in> set paths" and "parse_file p = Inl e"
  shows "\<exists>ok q rest e'. paths = ok @ q # rest
           \<and> (\<forall>x\<in>set ok. \<exists>t. parse_file x = Inr t)
           \<and> parse_file q = Inl e'
           \<and> get_calls parse_file paths m = Inl e'
           \<and> main True parse_file open_write paths m out = Inl e'
           \<and> (\<forall>isdir r. main isdir parse_file open_write paths m out \<noteq> Inr r)"
proof -
  from assms have "\<exists>x\<in>set paths. isl (parse_file x)" by force
  from split_list_first_prop [OF this]
  obtain ok q rest where split: "paths = ok @ q # rest"
    and q: "isl (parse_file q)" and ok: "\<forall>x\<in>set ok. \<not> isl (parse_file x)"
    by blast
  from q obtain e' where e': "parse_file q = Inl e'" by (cases "parse_file q") auto
  have ok': "\<forall>x\<in>set ok. \<exists>t. parse_file x = Inr t"
  proof
    fix x assume "x \<in> set ok"
    with ok show "\<exists>t. parse_file x = Inr t" by (cases "parse_file x") auto
  qed
  have gc: "get_calls parse_file paths m = Inl e'"
    unfolding get_calls_def split by (rule get_calls_loop_fail [OF ok' e'])
  then have "main True parse_file open_write paths m out = Inl e'"
    and "\<forall>isdir r. main isdir parse_file open_write paths m out \<noteq> Inr r"
    by (simp_all add: main_def)
  with split ok' e' gc show ?thesis by blast
qed

theorem parse_error_aborts_run_witness:
  "main True (\<lambda>p::nat. if p = 1 then Inl SyntaxError else Inr file_A) open_ok [0, 1, 2] ''acme.mod'' None
     = Inl SyntaxError"
proof -
  let ?pf = "\<lambda>p::nat. if p = 1 then Inl SyntaxError else Inr file_A"
  have "(1::nat) \<in> set [0, 1, 2]" and "?pf 1 = Inl SyntaxError" by simp_all
  with parse_error_aborts_run [of 1 "[0, 1, 2]" ?pf SyntaxError "''acme.mod''" open_ok None]
  obtain ok q rest e' where "[0, 1, 2] = ok @ q # rest"
    and "\<forall>x\<in>set ok. \<exists>t. ?pf x = Inr t" and "?pf q = Inl e'"
    and "main True ?pf open_ok [0, 1, 2] ''acme.mod'' None = Inl e'"
    by blast
  then show ?thesis by (auto split: if_splits)
qed

text \<open>
  C7.  The counts do not depend on the order of the hits: two hit sequences with the
  same elements, each as often, give the same count for every key and the same keys.
  The hits of two runs over the same files in different orders are such sequences, so
  the two runs give the same counts.
\<close>

theorem aggregate_order_independent:
  "(mset hs = mset hs' \<longrightarrow> map_of (Counter hs) = map_of (Counter hs'))
   \<and> (mset paths = mset paths' \<and> get_calls parse_file paths m = Inr hs1
        \<and> get_calls parse_file paths' m = Inr hs2 \<longrightarrow>
        mset hs1 = mset hs2 \<and> map_of (Counter hs1) = map_of (Counter hs2))"
  using Counter_perm [of hs hs'] Counter_perm [of hs1 hs2]
    get_calls_perm [of paths paths' parse_file m hs1 hs2]
  by blast

theorem aggregate_order_independent_witness:
  "map_of (Counter [''a'', ''b'', ''a'']) = map_of (Counter [''b'', ''a'', ''a''])
   \<and> get_calls (\<lambda>p::nat. if p = 0 then Inr file_A else Inr file_aliased) [0, 1] [] =
       Inr [''acme.mod.foo'', ''acme.mod.foo'', ''target.sub.thing'']
   \<and> get_calls (\<lambda>p::nat. if p = 0 then Inr file_A else Inr file_aliased) [1, 0] [] =
       Inr [''target.sub.thing'', ''acme.mod.foo'', ''acme.mod.foo'']
   \<and> map_of (Counter [''acme.mod.foo'', ''acme.mod.foo'', ''target.sub.thing'']) =
       map_of (Counter [''target.sub.thing'', ''acme.mod.foo'', ''acme.mod.foo''])"
proof -
  let ?pf = "\<lambda>p::nat. if p = 0 then Inr file_A else Inr file_aliased"
  have 1: "mset [''a'', ''b'', ''a''] = mset [''b'', ''a'', ''a'']" by simp
  have 2: "mset [0::nat, 1] = mset [1, 0]" by simp
  have 3: "get_calls ?pf [0, 1] [] = Inr [''acme.mod.foo'', ''acme.mod.foo'', ''target.sub.thing'']"
    by (simp add: get_calls_def file_A_def file_aliased_def mapping_of_def Import_of_def
          Import_id_def Import_key_def)
  have 4: "get_calls ?pf [1, 0] [] = Inr [''target.sub.thing'', ''acme.mod.foo'', ''acme.mod.foo'']"
    by (simp add: get_calls_def file_A_def file_aliased_def mapping_of_def Import_of_def
          Import_id_def Import_key_def)
  from 1 2 3 4 show ?thesis
    using aggregate_order_independent [of "[''a'', ''b'', ''a'']" "[''b'', ''a'', ''a'']"
        "[0, 1]" "[1, 0]" ?pf "[]" "[''acme.mod.foo'', ''acme.mod.foo'', ''target.sub.thing'']"
        "[''target.sub.thing'', ''acme.mod.foo'', ''acme.mod.foo'']"]
    by blast
qed

text \<open>
  C8.  With an output file \<open>f\<close> (a non-empty name) that can be opened and written, and a
  scan that succeeds, \<open>main\<close> hands \<open>csv.writer\<close> the rows of \<open>most_common\<close> and nothing
  before them: the keys of the rows are distinct and are exactly the keys that were hit,
  each row carries the number of hits of its key, there are as many rows as distinct
  keys, and the counts never increase from one row to the next.
\<close>

theorem csv_rows_by_descending_count:
  assumes "get_calls parse_file paths m = Inr hs" and "f \<noteq> []"
    and "open_write f (most_common (Counter hs)) = None"
  shows "main True parse_file open_write paths m (Some f) =
           Inr (Csv f (most_common (Counter hs)))
       \<and> distinct (map fst (most_common (Counter hs)))
       \<and> fst ` set (most_common (Counter hs)) = set hs
       \<and> (\<forall>k. map_of (most_common (Counter hs)) k =
               (if k \<in> set hs then Some (count_list hs k) else None))
       \<and> length (most_common (Counter hs)) = card (set hs)
       \<and> sorted_wrt (\<lambda>r r'. snd r \<ge> snd r') (most_common (Counter hs))"
proof -
  let ?rows = "most_common (Counter hs)"
  have set_rows: "set ?rows = set (Counter hs)"
    by (simp add: most_common_def)
  have d: "distinct (map fst ?rows)"
    unfolding most_common_def
    by (metis distinct_Counter distinct_map distinct_sort set_sort)
  have keys: "fst ` set ?rows = set hs"
    by (simp add: set_rows keys_Counter)
  have "map_of ?rows = map_of (Counter hs)"
    using map_of_inject_set [OF d distinct_Counter [of hs]] set_rows by simp
  then have m: "\<forall>k. map_of ?rows k = (if k \<in> set hs then Some (count_list hs k) else None)"
    by (simp add: map_of_Counter)
  have "length ?rows = length (map fst ?rows)" by simp
  also have "\<dots> = card (set (map fst ?rows))" using d by (simp only: distinct_card)
  also have "\<dots> = card (set hs)" using keys by simp
  finally have l: "length ?rows = card (set hs)" .
  have "main True parse_file open_write paths m (Some f) = Inr (Csv f ?rows)"
    using assms by (simp add: main_def)
  with d keys m l most_common_sorted [of "Counter hs"] show ?thesis by blast
qed

theorem csv_rows_by_descending_count_witness:
  "main True (\<lambda>p::nat. if p = 0 then Inr file_A else Inr file_aliased) open_ok [1, 0] []
      (Some ''out.csv'')
     = Inr (Csv ''out.csv'' [(''acme.mod.foo'', 2), (''target.sub.thing'', 1)])"
proof -
  let ?pf = "\<lambda>p::nat. if p = 0 then Inr file_A else Inr file_aliased"
  have 1: "get_calls ?pf [1, 0] [] = Inr [''target.sub.thing'', ''acme.mod.foo'', ''acme.mod.foo'']"
    by (simp add: get_calls_def file_A_def file_aliased_def mapping_of_def Import_of_def
          Import_id_def Import_key_def)
  have 2: "''out.csv'' \<noteq> []" by simp
  have 3: "most_common (Counter [''target.sub.thing'', ''acme.mod.foo'', ''acme.mod.foo'']) =
             [(''acme.mod.foo'', 2), (''target.sub.thing'', 1)]"
    by (simp add: most_common_def Counter_def)
  have 4: "open_ok ''out.csv''
             (most_common (Counter [''target.sub.thing'', ''acme.mod.foo'', ''acme.mod.foo''])) = None"
    by (simp add: open_ok_def)
  from csv_rows_by_descending_count [of ?pf "[1, 0]" "[]" _ "''out.csv''" open_ok, OF 1 2 4] 3
  show ?thesis by simp
qed

text \<open>
  C8 does not hold for every output file: when the file cannot be opened, as for a path
  in a directory that does not exist, the \<open>OSError\<close> of \<open>open\<close> ends the run and no row
  is written, although the scan succeeded.
\<close>

theorem output_file_not_written_counterexample:
  "main True (parse_as file_A) open_fails [0] ''acme.mod'' (Some ''missing_dir/out.csv'')
     = Inl OSError"
  by (simp add: main_def get_calls_def parse_as_def file_A_def open_fails_def mapping_of_def
        Import_of_def Import_id_def Import_key_def)

text \<open>
  C9.  With the empty string as the target module, the import collector returns the
  bindings of every \<open>from\<close>-import statement that names a module; the keys of the alias
  map are the local identifiers these statements bind, the alias where there is one and
  the name otherwise; and the scan of a file gives one hit for every call whose callee
  is one of these identifiers.  In \<open>file_any_module\<close> the two calls \<open>y()\<close> and the call
  \<open>z()\<close> are counted; \<open>h\<close> comes from \<open>from . import h\<close>, which names no module, and
  \<open>x\<close> is not the local identifier of \<open>x as y\<close>.
\<close>

theorem empty_prefix_tracks_all:
  "ImportCollector_visit [] tree acc = acc @ all_bindings tree
   \<and> dom (mapping_of (ImportCollector_visit [] tree [])) = set (bound_identifiers tree)
   \<and> (parse_file p = Inr tree \<longrightarrow>
        get_calls parse_file [p] [] =
          Inr (List.map_filter (mapping_of (all_bindings tree)) (bare_calls tree))
        \<and> length (List.map_filter (mapping_of (all_bindings tree)) (bare_calls tree)) =
            length (filter (\<lambda>x. x \<in> set (bound_identifiers tree)) (bare_calls tree)))"
proof -
  have v: "ImportCollector_visit [] tree acc = acc @ all_bindings tree" for acc
    by (simp add: ImportCollector_visit_eq import_bindings_empty)
  have d: "dom (mapping_of (all_bindings tree)) = set (bound_identifiers tree)"
    using Import_id_all_bindings [of tree] by (simp add: dom_mapping_of flip: set_map)
  have "get_calls parse_file [p] [] =
          Inr (List.map_filter (mapping_of (all_bindings tree)) (bare_calls tree))"
    if "parse_file p = Inr tree"
    using get_calls_single [of parse_file p tree "[]"] that v [of "[]"] by simp
  then show ?thesis
    using d by (simp add: v length_map_filter)
qed

theorem empty_prefix_tracks_all_witness:
  "ImportCollector_visit [] file_any_module [] =
     [\<lparr>module = ''pkg'', name = ''x'', asname = Some ''y''\<rparr>,
      \<lparr>module = ''lib'', name = ''z'', asname = None\<rparr>]
   \<and> bound_identifiers file_any_module = [''y'', ''z'']
   \<and> get_calls (parse_as file_any_module) [0] [] = Inr [''pkg.x'', ''pkg.x'', ''lib.z'']"
  using empty_prefix_tracks_all [of file_any_module "[]" "parse_as file_any_module" 0]
  by (simp add: parse_as_def file_any_module_def all_bindings_def statement_bindings_def
        bound_identifiers_def local_identifier_def mapping_of_def
        Import_id_def Import_key_def List.map_filter_simps)

text \<open>
  C9 does not hold for every \<open>from\<close>-import: \<open>from . import h\<close> has the module \<open>None\<close>,
  fails the test \<open>node.module and ...\<close> for every target, the empty one too, and the
  call \<open>h()\<close> of the name it binds is not counted.
\<close>

theorem relative_import_not_tracked_counterexample:
  "from_imports file_relative = [(None, [Alias ''h'' None])]
   \<and> bare_calls file_relative = [''h'']
   \<and> get_calls (parse_as file_relative) [0] [] = Inr []"
  by (simp add: file_relative_def get_calls_def parse_as_def mapping_of_def)

text \<open>
  C10.  The alias map is built from the whole file before the calls are scanned: when a
  statement \<open>x(...)\<close> stands before the matching \<open>from\<close>-import that binds \<open>x\<close>, the
  identifier is a key of the map and the call adds its hit, between the hits of what
  stands before the call and the hits of what follows it.
\<close>

theorem call_before_import_counted:
  assumes "parse_file p = Inr tree"
    and "tree = Node (pre @ Node [Call (Name x) as ks] # mid @ ImportFrom (Some s) ns lvl # post)"
    and "s \<noteq> []" and "prefix m s" and "a \<in> set ns" and "Import_id (Import_of s a) = x"
  shows "\<exists>k. mapping_of (ImportCollector_visit m tree []) x = Some k
           \<and> get_calls parse_file [p] m =
               Inr (CallsCollector_visits (mapping_of (ImportCollector_visit m tree [])) pre []
                    @ k # CallsCollector_visits (mapping_of (ImportCollector_visit m tree []))
                           (as @ ks @ mid @ ImportFrom (Some s) ns lvl # post) [])"
proof -
  let ?ids = "mapping_of (ImportCollector_visit m tree [])"
  have "(Some s, ns) \<in> set (from_imports tree)"
    by (simp add: assms(2) from_imports_list_append)
  moreover have "module_matches m (Some s)"
    using assms(3,4) by (simp add: module_matches_def prefix_take_eq)
  moreover have "Import_of s a \<in> set (statement_bindings (Some s, ns))"
    using assms(5) by (auto simp: statement_bindings_def Import_of_def)
  ultimately have "Import_of s a \<in> set (import_bindings m tree)"
    by (force simp: import_bindings_def)
  then have "Import_id (Import_of s a) \<in> Import_id ` set (import_bindings m tree)"
    by (rule imageI)
  then have "x \<in> dom ?ids"
    by (simp add: assms(6) dom_mapping_of ImportCollector_visit_eq)
  then obtain k where k: "?ids x = Some k" by blast
  have "get_calls parse_file [p] m = Inr (List.map_filter ?ids (bare_calls tree))"
    using get_calls_single [of parse_file p tree m] assms(1) by simp
  also have "List.map_filter ?ids (bare_calls tree) =
      CallsCollector_visits ?ids pre [] @ k #
        CallsCollector_visits ?ids (as @ ks @ mid @ ImportFrom (Some s) ns lvl # post) []"
    using k
    by (simp add: assms(2) CallsCollector_bare_calls bare_calls_list_append map_filter_append
          List.map_filter_simps)
  finally show ?thesis using k by blast
qed

theorem call_before_import_counted_witness:
  "get_calls (\<lambda>p::nat. Inr file_call_first) [0] ''m'' = Inr [''m.f'']"
  using call_before_import_counted [of "\<lambda>p::nat. Inr file_call_first" 0 file_call_first
      "[]" "''f''" "[]" "[]" "[]" "''m''" "[Alias ''f'' None]" 0 "[]" "''m''" "Alias ''f'' None"]
  by (simp add: file_call_first_def Import_of_def Import_id_def Import_key_def mapping_of_def)

end
